theory Spec2Isabelle
  imports Main
begin

section \<open>Offline video library: Metadata Index, Blob Store, Asset Manager\<close>

subsection \<open>Values\<close>

text \<open>
  A JavaScript exception is identified by its \<open>name\<close> property, the only part of it the
  code inspects (\<open>e.name !== "AbortError"\<close>).
\<close>

datatype exn = Exn (ename: string)

text \<open>
  A \<open>File\<close>: its name and its bytes. \<open>file.size\<close> is the byte length.
\<close>

datatype jsfile = File (fname: string) (fbytes: "nat list")

definition fsize :: "jsfile \<Rightarrow> nat" where
  "fsize f = length (fbytes f)"

text \<open>A Metadata Record \<open>{name, size}\<close> and an entry \<open>{name, size, url}\<close> of the list on display.\<close>

datatype meta_rec = Meta (m_name: string) (m_size: nat)

datatype video = Video (v_name: string) (v_size: nat) (v_url: nat)

subsection \<open>JavaScript \<open>Map\<close>\<close>

text \<open>
  A \<open>Map\<close> keeps its keys in the order of their first insertion; \<open>set\<close> on a key that is
  present replaces the value in place. \<open>new Map(entries)\<close> inserts the entries in order, and
  \<open>Array.from(m.values())\<close> lists the values in key order.
\<close>

fun Map_set :: "('k \<times> 'v) list \<Rightarrow> 'k \<Rightarrow> 'v \<Rightarrow> ('k \<times> 'v) list" where
  "Map_set [] k v = [(k, v)]"
| "Map_set ((k', v') # kvs) k v =
     (if k' = k then (k, v) # kvs else (k', v') # Map_set kvs k v)"

definition new_Map :: "('k \<times> 'v) list \<Rightarrow> ('k \<times> 'v) list" where
  "new_Map entries = foldl (\<lambda>m (k, v). Map_set m k v) [] entries"

definition Map_values :: "('k \<times> 'v) list \<Rightarrow> 'v list" where
  "Map_values m = map snd m"

subsection \<open>Metadata Index: the merge of \<open>handleAdd\<close>\<close>

text \<open>
  Lines 564 to 567 of the component, with \<open>existing\<close> the stored collection and
  \<open>addedMeta\<close> the records of this import:
  \<^verbatim>\<open>
  const byName = new Map(existing.map((m) => [m.name, m]));
  for (const m of addedMeta) byName.set(m.name, m);
  const merged = Array.from(byName.values());
  \<close>
\<close>

definition upsertAll :: "meta_rec list \<Rightarrow> meta_rec list \<Rightarrow> meta_rec list" where
  "upsertAll existing addedMeta =
     (let byName = new_Map (map (\<lambda>m. (m_name m, m)) existing);
          byName' = foldl (\<lambda>b m. Map_set b (m_name m) m) byName addedMeta
      in Map_values byName')"




subsection \<open>State\<close>

text \<open>
  The item stored in \<open>localStorage\<close> under \<open>DL_VIDS_META_KEY\<close>. \<open>ls.get\<close> answers its
  fallback when there is no item (or an empty one) and when reading or parsing throws.
\<close>

datatype ls_item = NoItem | Unparsable | Parsed "meta_rec list"

text \<open>The \<open>videos\<close> directory of the origin-private file system: entry name to bytes.\<close>

type_synonym directory = "string \<rightharpoonup> nat list"

text \<open>
  Everything the component reads and writes. \<open>hasOPFS\<close> is the module constant;
  \<open>getDirectory\<close> is the rejection, if any, of \<open>navigator.storage.getDirectory()\<close> or of
  \<open>getDirectoryHandle("videos", {create: true})\<close>; \<open>removeEntry_missing\<close> is what the
  platform's \<open>removeEntry\<close> does for a name with no entry (\<open>None\<close>: it resolves,
  \<open>Some e\<close>: it rejects with \<open>e\<close>; the algorithm of the File System standard and the
  browsers reject with \<open>NotFoundError\<close>). \<open>videos\<close> and \<open>opfsAvailable\<close> are the React
  state, \<open>toasts\<close> the messages shown so far, \<open>next_url\<close> the number of object URLs issued.
  \<open>history\<close> is a ghost field: the durable state (directory, stored index) after each
  durable write, oldest first.
\<close>

record world =
  hasOPFS :: bool
  getDirectory :: "exn option"
  removeEntry_missing :: "exn option"
  videos_dir :: directory
  ls_meta :: ls_item
  videos :: "video list"
  opfsAvailable :: bool
  toasts :: "(string \<times> string) list"
  next_url :: nat
  history :: "(directory \<times> ls_item) list"

definition dir_set :: "world \<Rightarrow> directory \<Rightarrow> world" where
  "dir_set w d = w\<lparr>videos_dir := d, history := history w @ [(d, ls_meta w)]\<rparr>"

definition ls_get :: "world \<Rightarrow> meta_rec list" where
  "ls_get w = (case ls_meta w of Parsed recs \<Rightarrow> recs | _ \<Rightarrow> [])"

text \<open>\<open>ls.set\<close>, with \<open>localStorage.setItem\<close> taken to succeed.\<close>

definition ls_set :: "world \<Rightarrow> meta_rec list \<Rightarrow> world" where
  "ls_set w recs =
     w\<lparr>ls_meta := Parsed recs, history := history w @ [(videos_dir w, Parsed recs)]\<rparr>"

definition showToast :: "world \<Rightarrow> string \<Rightarrow> string \<Rightarrow> world" where
  "showToast w msg kind = w\<lparr>toasts := toasts w @ [(msg, kind)]\<rparr>"

definition setVideos :: "world \<Rightarrow> video list \<Rightarrow> world" where
  "setVideos w vs = w\<lparr>videos := vs\<rparr>"

definition setOpfsAvailable :: "world \<Rightarrow> bool \<Rightarrow> world" where
  "setOpfsAvailable w b = w\<lparr>opfsAvailable := b\<rparr>"

text \<open>\<open>URL.createObjectURL\<close>: a URL never issued before.\<close>

definition createObjectURL :: "world \<Rightarrow> world \<times> nat" where
  "createObjectURL w = (w\<lparr>next_url := Suc (next_url w)\<rparr>, next_url w)"

subsection \<open>Blob Store: the OPFS helpers\<close>

definition getVideosDir :: "world \<Rightarrow> exn + directory" where
  "getVideosDir w = (case getDirectory w of Some e \<Rightarrow> Inl e | None \<Rightarrow> Inr (videos_dir w))"

text \<open>
  How the three awaits of \<open>writeFileToOPFS\<close> after \<open>getVideosDir\<close> end for one file:
  \<open>getFileHandle(name, {create: true})\<close> rejects; or it resolves (creating an empty entry
  when there was none) and \<open>createWritable\<close> or \<open>pipeTo\<close> rejects, which discards the
  bytes streamed so far; or the stream is flushed and closed, which replaces the content.
\<close>

datatype write_outcome = Flushed | GetFileHandleRejects exn | StreamRejects exn

definition getFileHandle_create :: "world \<Rightarrow> string \<Rightarrow> world" where
  "getFileHandle_create w n =
     (case videos_dir w n of None \<Rightarrow> dir_set w ((videos_dir w)(n \<mapsto> [])) | Some _ \<Rightarrow> w)"

definition writeFileToOPFS :: "world \<Rightarrow> jsfile \<Rightarrow> write_outcome \<Rightarrow> world \<times> (exn + meta_rec)" where
  "writeFileToOPFS w file out =
     (case getVideosDir w of
        Inl e \<Rightarrow> (w, Inl e)
      | Inr _ \<Rightarrow>
          (case out of
             GetFileHandleRejects e \<Rightarrow> (w, Inl e)
           | StreamRejects e \<Rightarrow> (getFileHandle_create w (fname file), Inl e)
           | Flushed \<Rightarrow>
               (let w' = getFileHandle_create w (fname file)
                in (dir_set w' ((videos_dir w')(fname file \<mapsto> fbytes file)),
                    Inr (Meta (fname file) (fsize file))))))"

definition readFileFromOPFS :: "world \<Rightarrow> string \<Rightarrow> exn + jsfile" where
  "readFileFromOPFS w n =
     (case getVideosDir w of
        Inl e \<Rightarrow> Inl e
      | Inr dir \<Rightarrow>
          (case dir n of None \<Rightarrow> Inl (Exn ''NotFoundError'') | Some bs \<Rightarrow> Inr (File n bs)))"

definition removeEntry :: "world \<Rightarrow> string \<Rightarrow> world \<times> (exn + unit)" where
  "removeEntry w n =
     (case videos_dir w n of
        None \<Rightarrow> (w, case removeEntry_missing w of None \<Rightarrow> Inr () | Some e \<Rightarrow> Inl e)
      | Some _ \<Rightarrow> (dir_set w ((videos_dir w)(n := None)), Inr ()))"

definition deleteFromOPFS :: "world \<Rightarrow> string \<Rightarrow> world \<times> (exn + unit)" where
  "deleteFromOPFS w n =
     (case getVideosDir w of Inl e \<Rightarrow> (w, Inl e) | Inr _ \<Rightarrow> removeEntry w n)"

subsection \<open>Asset Manager: the \<open>TabDownloads\<close> component\<close>

text \<open>
  The loop shared by the mount effect and \<open>handleAdd\<close>: a record whose read throws is
  skipped by the empty \<open>catch\<close>. \<open>file.size\<close> is never nullish, so \<open>file.size ?? m.size\<close> is
  \<open>file.size\<close>.
\<close>

fun rebuild_loop :: "world \<Rightarrow> meta_rec list \<Rightarrow> video list \<Rightarrow> world \<times> video list" where
  "rebuild_loop w [] rebuilt = (w, rebuilt)"
| "rebuild_loop w (m # ms) rebuilt =
     (case readFileFromOPFS w (m_name m) of
        Inl e \<Rightarrow> rebuild_loop w ms rebuilt
      | Inr file \<Rightarrow>
          (let (w', url) = createObjectURL w
           in rebuild_loop w' ms (rebuilt @ [Video (m_name m) (fsize file) url])))"

text \<open>The body of the \<open>try\<close> of the mount effect: the state it leaves and what it throws.\<close>

definition mount_try :: "world \<Rightarrow> world \<times> exn option" where
  "mount_try w =
     (let meta = ls_get w;
          (w', rebuilt) = rebuild_loop w meta []
      in (setVideos w' rebuilt, None))"

definition TabDownloads_mount :: "world \<Rightarrow> world" where
  "TabDownloads_mount w =
     (if \<not> hasOPFS w then
        (let w1 = setOpfsAvailable w False;
             meta = ls_get w1;
             w2 = (if meta \<noteq> [] then
                     showToast w1 ''OPFS not supported here; files won't persist.'' ''warn''
                   else w1)
         in setVideos w2 [])
      else
        (case mount_try w of
           (w', None) \<Rightarrow> w'
         | (w', Some e) \<Rightarrow>
             showToast (setOpfsAvailable w' False)
               ''Could not access OPFS; downloads won't persist.'' ''warn''))"

text \<open>
  One entry of the picker's answer: what \<open>handle.getFile()\<close> gives, and how the write of
  that file ends.
\<close>

datatype pick = Pick (getFile: "exn + jsfile") (stream: write_outcome)

datatype picker = NoPicker | PickerRejects exn | Picks "pick list"

fun add_loop :: "world \<Rightarrow> pick list \<Rightarrow> meta_rec list \<Rightarrow> world \<times> (exn + meta_rec list)" where
  "add_loop w [] addedMeta = (w, Inr addedMeta)"
| "add_loop w (p # ps) addedMeta =
     (case getFile p of
        Inl e \<Rightarrow> (w, Inl e)
      | Inr file \<Rightarrow>
          (if hasOPFS w then
             (case writeFileToOPFS w file (stream p) of
                (w', Inl e) \<Rightarrow> (w', Inl e)
              | (w', Inr _) \<Rightarrow> add_loop w' ps (addedMeta @ [Meta (fname file) (fsize file)]))
           else
             (let (w', url) = createObjectURL w
              in add_loop (setVideos w' (videos w' @ [Video (fname file) (fsize file) url]))
                   ps addedMeta)))"

definition handleAdd_try :: "world \<Rightarrow> picker \<Rightarrow> world \<times> exn option" where
  "handleAdd_try w pk =
     (case pk of
        NoPicker \<Rightarrow> (showToast w ''This browser can't open files (no picker).'' ''warn'', None)
      | PickerRejects e \<Rightarrow> (w, Some e)
      | Picks picks \<Rightarrow>
          (case add_loop w picks [] of
             (w1, Inl e) \<Rightarrow> (w1, Some e)
           | (w1, Inr addedMeta) \<Rightarrow>
               (if hasOPFS w1 \<and> addedMeta \<noteq> [] then
                  (let existing = ls_get w1;
                       merged = upsertAll existing addedMeta;
                       w2 = ls_set w1 merged;
                       (w3, rebuilt) = rebuild_loop w2 merged [];
                       w4 = setVideos w3 rebuilt
                   in (showToast w4 ''Video(s) saved for offline use'' ''success'', None))
                else (showToast w1 ''Video(s) added (session-only)'' ''warn'', None))))"

definition handleAdd :: "world \<Rightarrow> picker \<Rightarrow> world" where
  "handleAdd w pk =
     (case handleAdd_try w pk of
        (w', None) \<Rightarrow> w'
      | (w', Some e) \<Rightarrow>
          (if ename e \<noteq> ''AbortError'' then showToast w' ''Failed to add video'' ''warn''
           else w'))"

definition handleRemove_try :: "world \<Rightarrow> string \<Rightarrow> world \<times> exn option" where
  "handleRemove_try w n =
     (let (w1, thrown) =
            (if hasOPFS w then
               (case deleteFromOPFS w n of
                  (w', Inl e) \<Rightarrow> (w', Some e)
                | (w', Inr _) \<Rightarrow>
                    (let remainingMeta = filter (\<lambda>m. m_name m \<noteq> n) (ls_get w')
                     in (ls_set w' remainingMeta, None)))
             else (w, None))
      in (case thrown of
            Some e \<Rightarrow> (w1, Some e)
          | None \<Rightarrow>
              (showToast (setVideos w1 (filter (\<lambda>v. v_name v \<noteq> n) (videos w1)))
                 ''Removed'' ''info'', None)))"

definition handleRemove :: "world \<Rightarrow> string \<Rightarrow> world" where
  "handleRemove w n =
     (case handleRemove_try w n of
        (w', None) \<Rightarrow> w'
      | (w', Some e) \<Rightarrow> showToast w' ''Could not remove'' ''warn'')"

section \<open>Network Cache Controller: the service worker\<close>

subsection \<open>Responses, requests, the network and the caches\<close>

datatype response = Response (body: string) (status: nat) (statusText: string)

definition ok :: "response \<Rightarrow> bool" where
  "ok r = (200 \<le> status r \<and> status r \<le> 299)"

text \<open>What \<open>fetch\<close> does for a URL: it rejects (no network), or resolves with a response.\<close>

datatype fetched = Rejected exn | Resolved response

type_synonym network = "string \<Rightarrow> fetched"

text \<open>
  A request as far as the listener looks at it: \<open>req.method\<close>, \<open>req.mode\<close>, \<open>req.url\<close>
  and the origin of \<open>new URL(req.url)\<close>.
\<close>

record request =
  req_method :: string
  req_mode :: string
  req_url :: string
  url_origin :: string

text \<open>
  The worker's surroundings: \<open>self.registration.scope\<close>, \<open>self.location.origin\<close> and the
  platform's URL resolution, \<open>new_URL env path base\<close> being
  \<open>new URL(path, base).toString()\<close>.
\<close>

record sw_env =
  registration_scope :: string
  location_origin :: string
  new_URL :: "string \<Rightarrow> string \<Rightarrow> string"

text \<open>
  A cache maps a URL to the stored response; \<open>CacheStorage\<close> lists the caches by name in
  the order of their creation. \<open>cache.put\<close> is not awaited by the worker; it is modelled as
  the store it performs on a response the cache accepts.
\<close>

type_synonym cache = "string \<rightharpoonup> response"

type_synonym cache_storage = "(string \<times> cache) list"

definition caches_keys :: "cache_storage \<Rightarrow> string list" where
  "caches_keys cs = map fst cs"

definition caches_open :: "cache_storage \<Rightarrow> string \<Rightarrow> cache_storage" where
  "caches_open cs tag = (if tag \<in> set (caches_keys cs) then cs else cs @ [(tag, Map.empty)])"

definition caches_delete :: "cache_storage \<Rightarrow> string \<Rightarrow> cache_storage" where
  "caches_delete cs tag = filter (\<lambda>(k, c). k \<noteq> tag) cs"

definition cache_match :: "cache_storage \<Rightarrow> string \<Rightarrow> string \<Rightarrow> response option" where
  "cache_match cs tag u = (case map_of cs tag of None \<Rightarrow> None | Some c \<Rightarrow> c u)"

definition cache_put :: "cache_storage \<Rightarrow> string \<Rightarrow> string \<Rightarrow> response \<Rightarrow> cache_storage" where
  "cache_put cs tag u r = map (\<lambda>(k, c). if k = tag then (k, c(u \<mapsto> r)) else (k, c)) cs"

subsection \<open>The worker\<close>

definition CACHE :: string where
  "CACHE = ''app-shell-v1''"

definition ASSETS :: "string list" where
  "ASSETS = [''./'', ''index.html'', ''manifest.json'', ''assets/icon-192.png'',
     ''assets/icon-512.png'']"

definition scopeURL :: "sw_env \<Rightarrow> string \<Rightarrow> string" where
  "scopeURL env path = new_URL env path (registration_scope env)"

text \<open>
  \<open>cache.addAll\<close> fetches every URL and stores the responses only when every fetch
  resolved with an ok response; otherwise it rejects and stores nothing.
\<close>

fun fetch_all :: "network \<Rightarrow> string list \<Rightarrow> (string \<times> response) list option" where
  "fetch_all net [] = Some []"
| "fetch_all net (u # us) =
     (case net u of
        Rejected e \<Rightarrow> None
      | Resolved r \<Rightarrow>
          (if ok r then
             (case fetch_all net us of None \<Rightarrow> None | Some rs \<Rightarrow> Some ((u, r) # rs))
           else None))"

definition cache_addAll ::
  "network \<Rightarrow> cache_storage \<Rightarrow> string \<Rightarrow> string list \<Rightarrow> cache_storage \<times> exn option" where
  "cache_addAll net cs tag us =
     (case fetch_all net us of
        None \<Rightarrow> (cs, Some (Exn ''TypeError''))
      | Some rs \<Rightarrow> (foldl (\<lambda>cs' (u, r). cache_put cs' tag u r) cs rs, None))"

text \<open>
  The \<open>install\<close> listener: the caches it leaves and the rejection, if any, of the promise
  given to \<open>waitUntil\<close>. \<open>skipWaiting\<close> and \<open>clients.claim\<close> touch no cache.
\<close>

definition install :: "sw_env \<Rightarrow> network \<Rightarrow> cache_storage \<Rightarrow> cache_storage \<times> exn option" where
  "install env net cs =
     (let cs1 = caches_open cs CACHE
      in cache_addAll net cs1 CACHE (map (scopeURL env) ASSETS))"

text \<open>
  The \<open>activate\<close> listener: \<open>caches.delete(k)\<close> for every enumerated key other than
  \<open>CACHE\<close>.
\<close>

definition activate :: "cache_storage \<Rightarrow> cache_storage" where
  "activate cs =
     (let keys = caches_keys cs
      in foldl (\<lambda>cs' k. if k \<noteq> CACHE then caches_delete cs' k else cs') cs keys)"

definition offline_navigate :: response where
  "offline_navigate = Response ''Offline'' 503 ''Offline''"

definition offline_asset :: response where
  "offline_asset = Response ''Offline'' 503 []"

text \<open>The navigation branch of the \<open>fetch\<close> listener: the answer and the caches it leaves.\<close>

definition respond_navigate ::
  "sw_env \<Rightarrow> network \<Rightarrow> cache_storage \<Rightarrow> response \<times> cache_storage" where
  "respond_navigate env net cs =
     (let cs1 = caches_open cs CACHE;
          indexURL = scopeURL env ''index.html'';
          cached = cache_match cs1 CACHE indexURL
      in (case net indexURL of
            Resolved fresh \<Rightarrow>
              (if ok fresh then (fresh, cache_put cs1 CACHE indexURL fresh)
               else (case cached of Some c \<Rightarrow> (c, cs1) | None \<Rightarrow> (fresh, cs1)))
          | Rejected e \<Rightarrow>
              (case cached of Some c \<Rightarrow> (c, cs1) | None \<Rightarrow> (offline_navigate, cs1))))"

text \<open>The same-origin branch.\<close>

definition respond_same_origin ::
  "network \<Rightarrow> cache_storage \<Rightarrow> request \<Rightarrow> response \<times> cache_storage" where
  "respond_same_origin net cs req =
     (let cs1 = caches_open cs CACHE;
          cached = cache_match cs1 CACHE (req_url req)
      in (case cached of
            Some c \<Rightarrow> (c, cs1)
          | None \<Rightarrow>
              (case net (req_url req) of
                 Resolved fresh \<Rightarrow>
                   (fresh, if ok fresh then cache_put cs1 CACHE (req_url req) fresh else cs1)
               | Rejected e \<Rightarrow>
                   (case cached of Some c \<Rightarrow> (c, cs1) | None \<Rightarrow> (offline_asset, cs1)))))"

text \<open>
  The \<open>fetch\<close> listener. \<open>None\<close>: \<open>respondWith\<close> is not called and the request goes to
  the network untouched.
\<close>

definition fetch_listener ::
  "sw_env \<Rightarrow> network \<Rightarrow> cache_storage \<Rightarrow> request \<Rightarrow> response option \<times> cache_storage" where
  "fetch_listener env net cs req =
     (if req_method req \<noteq> ''GET'' then (None, cs)
      else if req_mode req = ''navigate'' then
        (let (r, cs') = respond_navigate env net cs in (Some r, cs'))
      else if url_origin req = location_origin env then
        (let (r, cs') = respond_same_origin net cs req in (Some r, cs'))
      else (None, cs))"

subsection \<open>A concrete worker, for the examples\<close>

definition example_env :: sw_env where
  "example_env =
     \<lparr>registration_scope = ''https://app.example/video/'',
      location_origin = ''https://app.example'',
      new_URL = (\<lambda>path base. if path = ''./'' then base else base @ path)\<rparr>"

definition example_navigation :: request where
  "example_navigation =
     \<lparr>req_method = ''GET'', req_mode = ''navigate'',
      req_url = ''https://app.example/video/watch/42'', url_origin = ''https://app.example''\<rparr>"


definition network_down :: network where
  "network_down = (\<lambda>u. Rejected (Exn ''TypeError''))"

definition network_up :: network where
  "network_up = (\<lambda>u. Resolved (Response u 200 ''OK''))"


definition example_caches :: cache_storage where
  "example_caches =
     [(''app-shell-v0'', Map.empty),
      (CACHE, [''https://app.example/video/index.html'' \<mapsto> Response ''shell'' 200 ''OK'']),
      (''thumbnails'', Map.empty)]"

subsection \<open>Vocabulary for the properties\<close>

text \<open>A read of the Blob Store succeeds: \<open>readFileFromOPFS\<close> resolves.\<close>

definition read_succeeds :: "world \<Rightarrow> string \<Rightarrow> bool" where
  "read_succeeds w n = (case readFileFromOPFS w n of Inr _ \<Rightarrow> True | Inl _ \<Rightarrow> False)"

text \<open>The names a stored index lists, as \<open>ls.get\<close> reads it.\<close>

definition listed :: "ls_item \<Rightarrow> string set" where
  "listed it = (case it of Parsed recs \<Rightarrow> m_name ` set recs | _ \<Rightarrow> {})"

text \<open>A directory after the complete write of a file, and of a list of files in order.\<close>

definition dir_write :: "directory \<Rightarrow> jsfile \<Rightarrow> directory" where
  "dir_write d f = d(fname f \<mapsto> fbytes f)"

definition written :: "directory \<Rightarrow> jsfile list \<Rightarrow> directory" where
  "written d fs = foldl dir_write d fs"

text \<open>A pick whose file is obtained and whose write is flushed, and the record it adds.\<close>

definition flushed_pick :: "jsfile \<Rightarrow> pick" where
  "flushed_pick f = Pick (Inr f) Flushed"

definition meta_of :: "jsfile \<Rightarrow> meta_rec" where
  "meta_of f = Meta (fname f) (fsize f)"


text \<open>
  The state after the complete write of a file, and a list of durable states that all carry
  the stored index \<open>m\<close>.
\<close>

definition write_ok :: "world \<Rightarrow> jsfile \<Rightarrow> world" where
  "write_ok w f = fst (writeFileToOPFS w f Flushed)"

definition index_is :: "ls_item \<Rightarrow> (directory \<times> ls_item) list \<Rightarrow> bool" where
  "index_is m hs = list_all (\<lambda>(d, m'). m' = m) hs"

subsection \<open>A concrete library, for the examples\<close>

definition example_world :: world where
  "example_world =
     \<lparr>hasOPFS = True, getDirectory = None,
      removeEntry_missing = Some (Exn ''NotFoundError''),
      videos_dir = [''a.mp4'' \<mapsto> [1, 2, 3], ''c.mp4'' \<mapsto> [7]],
      ls_meta = Parsed [Meta ''a.mp4'' 3, Meta ''b.mp4'' 5, Meta ''c.mp4'' 1],
      videos = [], opfsAvailable = True, toasts = [], next_url = 0, history = []\<rparr>"

definition example_import :: picker where
  "example_import =
     Picks [flushed_pick (File ''d.mp4'' [1, 2]),
            Pick (Inr (File ''e.mp4'' [3])) (StreamRejects (Exn ''QuotaExceededError'')),
            flushed_pick (File ''f.mp4'' [4])]"


section \<open>Properties of the Metadata Index merge\<close>




















section \<open>Properties of the Network Cache Controller\<close>

lemma keys_caches_open: "caches_keys (caches_open cs t) = (if t \<in> set (caches_keys cs) then caches_keys cs else caches_keys cs @ [t])"
  by (simp add: caches_open_def caches_keys_def)

lemma open_has_key: "t \<in> set (caches_keys (caches_open cs t))"
  by (simp add: keys_caches_open)

lemma distinct_caches_open: "distinct (caches_keys cs) \<Longrightarrow> distinct (caches_keys (caches_open cs t))"
  by (simp add: keys_caches_open)

lemma map_of_caches_open:
  "map_of (caches_open cs t) t' = (if t' = t \<and> t \<notin> set (caches_keys cs) then Some Map.empty else map_of cs t')"
proof (cases "t \<in> set (caches_keys cs)")
  case True
  then show ?thesis by (simp add: caches_open_def)
next
  case False
  then have "map_of cs t = None" by (simp add: caches_keys_def map_of_eq_None_iff)
  with False show ?thesis
    by (cases "map_of cs t'") (auto simp: caches_open_def map_add_def)
qed

lemma match_caches_open: "cache_match (caches_open cs t) t' u = cache_match cs t' u"
proof (cases "t' = t \<and> t \<notin> set (caches_keys cs)")
  case True
  then have "map_of cs t' = None" by (simp add: caches_keys_def map_of_eq_None_iff)
  with True show ?thesis by (simp add: cache_match_def map_of_caches_open)
next
  case False
  then show ?thesis by (auto simp: cache_match_def map_of_caches_open)
qed

lemma keys_cache_put: "caches_keys (cache_put cs t u r) = caches_keys cs"
  by (induction cs) (auto simp: cache_put_def caches_keys_def)



lemma keys_caches_delete: "caches_keys (caches_delete cs t) = filter (\<lambda>k. k \<noteq> t) (caches_keys cs)"
  by (induction cs) (auto simp: caches_delete_def caches_keys_def)

lemma map_of_caches_delete: "map_of (caches_delete cs t) t' = (if t' = t then None else map_of cs t')"
  by (induction cs) (auto simp: caches_delete_def)

lemma activate_fold_keys:
  "caches_keys (foldl (\<lambda>cs' k. if k \<noteq> CACHE then caches_delete cs' k else cs') cs ks) =
     filter (\<lambda>k. k = CACHE \<or> k \<notin> set ks) (caches_keys cs)"
proof (induction ks arbitrary: cs)
  case Nil
  show ?case by simp
next
  case (Cons k ks)
  show ?case
    by (auto simp: Cons.IH keys_caches_delete intro: filter_cong)
qed

lemma activate_fold_map_of:
  "map_of (foldl (\<lambda>cs' k. if k \<noteq> CACHE then caches_delete cs' k else cs') cs ks) CACHE = map_of cs CACHE"
  by (induction ks arbitrary: cs) (auto simp: map_of_caches_delete)

lemma keys_activate: "caches_keys (activate cs) = filter (\<lambda>k. k = CACHE) (caches_keys cs)"
  by (auto simp: activate_def activate_fold_keys intro: filter_cong)

lemma match_activate: "cache_match (activate cs) CACHE u = cache_match cs CACHE u"
  by (simp add: cache_match_def activate_def activate_fold_map_of)

lemma filter_eq_distinct: "distinct xs \<Longrightarrow> x \<in> set xs \<Longrightarrow> filter (\<lambda>k. k = x) xs = [x]"
  by (induction xs) (auto simp: filter_empty_conv)

lemma keys_cache_addAll: "caches_keys (fst (cache_addAll net cs t us)) = caches_keys cs"
proof -
  have "caches_keys (foldl (\<lambda>cs' (u, r). cache_put cs' t u r) cs rs) = caches_keys cs" for rs
    by (induction rs arbitrary: cs) (auto simp: keys_cache_put)
  then show ?thesis by (simp add: cache_addAll_def split: option.splits)
qed

lemma keys_install: "caches_keys (fst (install env net cs)) = caches_keys (caches_open cs CACHE)"
  by (simp add: install_def keys_cache_addAll)

lemma navigate_eq:
  "req_method req = ''GET'' \<Longrightarrow> req_mode req = ''navigate'' \<Longrightarrow>
   fetch_listener env net cs req = (Some (fst (respond_navigate env net cs)), snd (respond_navigate env net cs))"
  by (simp add: fetch_listener_def split: prod.splits)















text \<open>
  Claim C6. For every set of cache generations (their tags distinct, as \<open>CacheStorage\<close>
  keeps them), activation deletes every generation whose tag is not the current one and leaves
  the current one with its entries. With the current generation among them, as the install
  step leaves it, exactly that one remains enumerable.
\<close>

theorem activate_keeps_only_current:
  assumes "distinct (caches_keys cs)"
  shows "caches_keys (activate cs) = filter (\<lambda>k. k = CACHE) (caches_keys cs) \<and>
         cache_match (activate cs) CACHE u = cache_match cs CACHE u \<and>
         (CACHE \<in> set (caches_keys cs) \<longrightarrow> caches_keys (activate cs) = [CACHE]) \<and>
         caches_keys (activate (fst (install env net cs))) = [CACHE]"
proof -
  have "distinct (caches_keys (fst (install env net cs)))"
       "CACHE \<in> set (caches_keys (fst (install env net cs)))"
    using assms by (simp_all add: keys_install distinct_caches_open open_has_key)
  then show ?thesis
    using assms by (simp add: keys_activate match_activate filter_eq_distinct)
qed

theorem activate_keeps_only_current_witness:
  "distinct (caches_keys example_caches) \<and> CACHE \<in> set (caches_keys example_caches) \<and>
   caches_keys example_caches = [''app-shell-v0'', CACHE, ''thumbnails''] \<and>
   caches_keys (activate example_caches) = [CACHE]"
proof -
  have h: "distinct (caches_keys example_caches)"
    by (simp add: example_caches_def caches_keys_def CACHE_def)
  have k: "caches_keys example_caches = [''app-shell-v0'', CACHE, ''thumbnails'']"
    by (simp add: example_caches_def caches_keys_def)
  have c: "CACHE \<in> set (caches_keys example_caches)"
    by (simp add: k)
  from activate_keeps_only_current [OF h] c k h
  show ?thesis by blast
qed

text \<open>
  Claim C10, as amended. Every intercepted navigation request is answered, whatever URL is
  navigated to, with the response for the scope-resolved \<open>index.html\<close>, just fetched or read
  from the cache, or, when that fetch rejects and nothing is cached, with the synthesized
  Offline response. The answer and the caches left depend neither on the requested URL nor on
  what the network holds for any other URL.
\<close>

theorem navigation_answers_with_shell:
  assumes "req_method req = ''GET''" and "req_mode req = ''navigate''"
    and "req_method req' = ''GET''" and "req_mode req' = ''navigate''"
    and "net' (scopeURL env ''index.html'') = net (scopeURL env ''index.html'')"
  shows "fetch_listener env net' cs req' = fetch_listener env net cs req \<and>
         (\<exists>r. fst (fetch_listener env net cs req) = Some r \<and>
            (net (scopeURL env ''index.html'') = Resolved r \<or>
             cache_match cs CACHE (scopeURL env ''index.html'') = Some r \<or>
             (r = offline_navigate \<and> (\<exists>e. net (scopeURL env ''index.html'') = Rejected e) \<and>
              cache_match cs CACHE (scopeURL env ''index.html'') = None)))"
proof -
  have "respond_navigate env net' cs = respond_navigate env net cs"
    using assms(5) by (simp add: respond_navigate_def)
  then have same: "fetch_listener env net' cs req' = fetch_listener env net cs req"
    using assms by (simp add: navigate_eq)
  have "net (scopeURL env ''index.html'') = Resolved (fst (respond_navigate env net cs)) \<or>
      cache_match cs CACHE (scopeURL env ''index.html'') = Some (fst (respond_navigate env net cs)) \<or>
      (fst (respond_navigate env net cs) = offline_navigate \<and>
       (\<exists>e. net (scopeURL env ''index.html'') = Rejected e) \<and>
       cache_match cs CACHE (scopeURL env ''index.html'') = None)"
    by (simp add: respond_navigate_def Let_def match_caches_open split: fetched.splits option.splits)
  with same show ?thesis
    using assms by (simp add: navigate_eq)
qed

theorem navigation_answers_with_shell_witness:
  "req_method example_navigation = ''GET'' \<and> req_mode example_navigation = ''navigate'' \<and>
   req_method (example_navigation\<lparr>req_url := ''https://app.example/video/other''\<rparr>) = ''GET'' \<and>
   req_mode (example_navigation\<lparr>req_url := ''https://app.example/video/other''\<rparr>) = ''navigate'' \<and>
   fetch_listener example_env network_up example_caches
     (example_navigation\<lparr>req_url := ''https://app.example/video/other''\<rparr>) =
   fetch_listener example_env network_up example_caches example_navigation"
proof -
  have h: "req_method example_navigation = ''GET''" "req_mode example_navigation = ''navigate''"
    "req_method (example_navigation\<lparr>req_url := ''https://app.example/video/other''\<rparr>) = ''GET''"
    "req_mode (example_navigation\<lparr>req_url := ''https://app.example/video/other''\<rparr>) = ''navigate''"
    by (simp_all add: example_navigation_def)
  from navigation_answers_with_shell [OF h, where env = example_env and net = network_up
      and net' = network_up and cs = example_caches] h
  show ?thesis by simp
qed

text \<open>
  The claim as stated fails when every fetch rejects and the cache holds no shell: the answer
  is the synthesized Offline response, which is neither fetched nor read from the cache.
\<close>

theorem navigation_offline_counterexample:
  "network_down (scopeURL example_env ''index.html'') = Rejected (Exn ''TypeError'') \<and>
   cache_match [] CACHE (scopeURL example_env ''index.html'') = None \<and>
   fst (fetch_listener example_env network_down [] example_navigation) =
     Some (Response ''Offline'' 503 ''Offline'')"
  by (simp add: fetch_listener_def respond_navigate_def example_navigation_def network_down_def
      cache_match_def caches_open_def caches_keys_def offline_navigate_def Let_def)

section \<open>Properties of the Asset Manager\<close>

subsection \<open>The rebuild loop\<close>

lemma read_next_url [simp]: "readFileFromOPFS (w\<lparr>next_url := k\<rparr>) n = readFileFromOPFS w n"
  by (simp add: readFileFromOPFS_def getVideosDir_def split: option.splits)

lemma read_succeeds_next_url [simp]: "read_succeeds (w\<lparr>next_url := k\<rparr>) n = read_succeeds w n"
  by (simp add: read_succeeds_def)

lemma read_succeeds_iff:
  "read_succeeds w n \<longleftrightarrow> getDirectory w = None \<and> videos_dir w n \<noteq> None"
  by (auto simp: read_succeeds_def readFileFromOPFS_def getVideosDir_def split: option.splits)

lemma read_Inr:
  "readFileFromOPFS w n = Inr f \<longleftrightarrow>
     getDirectory w = None \<and> (\<exists>bs. videos_dir w n = Some bs \<and> f = File n bs)"
  by (auto simp: readFileFromOPFS_def getVideosDir_def split: option.splits)

lemma rebuild_loop_world:
  "fst (rebuild_loop w ms acc) =
     w\<lparr>next_url := next_url w + length (filter (\<lambda>m. read_succeeds w (m_name m)) ms)\<rparr>"
proof (induction ms arbitrary: w acc)
  case Nil
  show ?case by simp
next
  case (Cons m ms)
  show ?case
  proof (cases "readFileFromOPFS w (m_name m)")
    case (Inl e)
    then have "\<not> read_succeeds w (m_name m)" by (simp add: read_succeeds_def)
    with Inl show ?thesis by (simp add: Cons.IH)
  next
    case (Inr f)
    then have "read_succeeds w (m_name m)" by (simp add: read_succeeds_def)
    with Inr show ?thesis by (simp add: Cons.IH createObjectURL_def)
  qed
qed

lemma rebuild_loop_names:
  "map v_name (snd (rebuild_loop w ms acc)) =
     map v_name acc @ filter (read_succeeds w) (map m_name ms)"
proof (induction ms arbitrary: w acc)
  case Nil
  show ?case by simp
next
  case (Cons m ms)
  show ?case
  proof (cases "readFileFromOPFS w (m_name m)")
    case (Inl e)
    then have "\<not> read_succeeds w (m_name m)" by (simp add: read_succeeds_def)
    with Inl show ?thesis by (simp add: Cons.IH)
  next
    case (Inr f)
    then have "read_succeeds w (m_name m)" by (simp add: read_succeeds_def)
    with Inr show ?thesis by (simp add: Cons.IH createObjectURL_def)
  qed
qed

lemma rebuild_loop_urls:
  "map v_url (snd (rebuild_loop w ms acc)) =
     map v_url acc @
     [next_url w ..< next_url w + length (filter (\<lambda>m. read_succeeds w (m_name m)) ms)]"
proof (induction ms arbitrary: w acc)
  case Nil
  show ?case by simp
next
  case (Cons m ms)
  show ?case
  proof (cases "readFileFromOPFS w (m_name m)")
    case (Inl e)
    then have "\<not> read_succeeds w (m_name m)" by (simp add: read_succeeds_def)
    with Inl show ?thesis by (simp add: Cons.IH)
  next
    case (Inr f)
    then have "read_succeeds w (m_name m)" by (simp add: read_succeeds_def)
    moreover have "[k ..< Suc (k + j)] = k # [Suc k ..< Suc (k + j)]" for k j :: nat
      by (simp add: upt_conv_Cons)
    ultimately show ?thesis
      using Inr by (simp add: Cons.IH createObjectURL_def del: upt_Suc)
  qed
qed

lemma rebuild_loop_sizes:
  "\<forall>v \<in> set acc. \<exists>bs. videos_dir w (v_name v) = Some bs \<and> v_size v = length bs \<Longrightarrow>
   \<forall>v \<in> set (snd (rebuild_loop w ms acc)).
      \<exists>bs. videos_dir w (v_name v) = Some bs \<and> v_size v = length bs"
proof (induction ms arbitrary: w acc)
  case Nil
  then show ?case by simp
next
  case (Cons m ms)
  show ?case
  proof (cases "readFileFromOPFS w (m_name m)")
    case (Inl e)
    with Cons show ?thesis by simp
  next
    case (Inr f)
    then obtain bs where bs: "videos_dir w (m_name m) = Some bs" "f = File (m_name m) bs"
      by (auto simp: read_Inr)
    have "\<forall>v\<in>set (snd (rebuild_loop (w\<lparr>next_url := Suc (next_url w)\<rparr>) ms
            (acc @ [Video (m_name m) (fsize f) (next_url w)]))).
        \<exists>bs. videos_dir (w\<lparr>next_url := Suc (next_url w)\<rparr>) (v_name v) = Some bs \<and>
             v_size v = length bs"
      by (rule Cons.IH) (use Cons.prems bs in \<open>auto simp: fsize_def\<close>)
    with Inr show ?thesis by (simp add: createObjectURL_def)
  qed
qed

lemma mount_try_eq:
  "mount_try w =
     (setVideos (fst (rebuild_loop w (ls_get w) [])) (snd (rebuild_loop w (ls_get w) [])), None)"
  by (simp add: mount_try_def Let_def split: prod.splits)

lemma mount_OPFS:
  "hasOPFS w \<Longrightarrow>
   TabDownloads_mount w =
     setVideos (fst (rebuild_loop w (ls_get w) [])) (snd (rebuild_loop w (ls_get w) []))"
  by (simp add: TabDownloads_mount_def mount_try_eq)


text \<open>
  Claim C3. With the Blob Store available, for every stored Metadata Index and every
  directory, the rebuild of the mount effect lists exactly the records whose read succeeds,
  in order, each with the size of the bytes read and an object URL never issued before;
  the records whose read fails are dropped without a message and without a change of
  \<open>opfsAvailable\<close>; the body of the \<open>try\<close> throws nothing; the durable state is untouched.
\<close>

theorem rebuild_lists_readable_records:
  assumes "hasOPFS w"
  shows "map v_name (videos (TabDownloads_mount w)) =
           filter (read_succeeds w) (map m_name (ls_get w)) \<and>
         map v_url (videos (TabDownloads_mount w)) =
           [next_url w ..< next_url w + length (videos (TabDownloads_mount w))] \<and>
         (\<forall>v \<in> set (videos (TabDownloads_mount w)).
            \<exists>bs. videos_dir w (v_name v) = Some bs \<and> v_size v = length bs) \<and>
         snd (mount_try w) = None \<and>
         toasts (TabDownloads_mount w) = toasts w \<and>
         opfsAvailable (TabDownloads_mount w) = opfsAvailable w \<and>
         videos_dir (TabDownloads_mount w) = videos_dir w \<and>
         ls_meta (TabDownloads_mount w) = ls_meta w"
proof -
  let ?loop = "rebuild_loop w (ls_get w) []"
  have names: "map v_name (snd ?loop) = filter (read_succeeds w) (map m_name (ls_get w))"
    by (simp add: rebuild_loop_names)
  have "length (snd ?loop) = length (filter (read_succeeds w) (map m_name (ls_get w)))"
    using names by (metis length_map)
  then have len: "length (snd ?loop) =
      length (filter (\<lambda>m. read_succeeds w (m_name m)) (ls_get w))"
    by (simp add: filter_map comp_def)
  have urls: "map v_url (snd ?loop) = [next_url w ..< next_url w + length (snd ?loop)]"
    by (simp add: rebuild_loop_urls len)
  have sizes: "\<forall>v \<in> set (snd ?loop). \<exists>bs. videos_dir w (v_name v) = Some bs \<and> v_size v = length bs"
    by (rule rebuild_loop_sizes) simp
  show ?thesis
    using assms names urls sizes
    by (simp add: mount_OPFS mount_try_eq setVideos_def rebuild_loop_world)
qed

theorem rebuild_lists_readable_records_witness:
  "hasOPFS example_world \<and>
   map m_name (ls_get example_world) = [''a.mp4'', ''b.mp4'', ''c.mp4''] \<and>
   \<not> read_succeeds example_world ''b.mp4'' \<and>
   map v_name (videos (TabDownloads_mount example_world)) = [''a.mp4'', ''c.mp4'']"
proof -
  have h: "hasOPFS example_world"
    by (simp add: example_world_def)
  have r: "read_succeeds example_world ''a.mp4''" "\<not> read_succeeds example_world ''b.mp4''"
      "read_succeeds example_world ''c.mp4''"
    by (simp_all add: read_succeeds_iff example_world_def)
  have m: "map m_name (ls_get example_world) = [''a.mp4'', ''b.mp4'', ''c.mp4'']"
    by (simp add: ls_get_def example_world_def)
  from rebuild_lists_readable_records [OF h] h r m
  show ?thesis by simp
qed

subsection \<open>Removal\<close>

lemma deleteFromOPFS_cases:
  "deleteFromOPFS w n =
     (case getDirectory w of
        Some e \<Rightarrow> (w, Inl e)
      | None \<Rightarrow>
          (case videos_dir w n of
             None \<Rightarrow> (w, case removeEntry_missing w of None \<Rightarrow> Inr () | Some e \<Rightarrow> Inl e)
           | Some bs \<Rightarrow> (dir_set w ((videos_dir w)(n := None)), Inr ())))"
  by (simp add: deleteFromOPFS_def getVideosDir_def removeEntry_def split: option.splits)


lemma remove_rejected:
  "hasOPFS w \<Longrightarrow> snd (deleteFromOPFS w n) = Inl e \<Longrightarrow>
   handleRemove w n = showToast (fst (deleteFromOPFS w n)) ''Could not remove'' ''warn''"
  by (cases "deleteFromOPFS w n") (simp add: handleRemove_def handleRemove_try_def)

lemma remove_resolved:
  "hasOPFS w \<Longrightarrow> snd (deleteFromOPFS w n) = Inr u \<Longrightarrow>
   handleRemove w n =
     (let w1 = fst (deleteFromOPFS w n);
          w2 = ls_set w1 (filter (\<lambda>m. m_name m \<noteq> n) (ls_get w1))
      in showToast (setVideos w2 (filter (\<lambda>v. v_name v \<noteq> n) (videos w2))) ''Removed'' ''info'')"
  by (cases "deleteFromOPFS w n") (simp add: handleRemove_def handleRemove_try_def Let_def)

lemma delete_fields:
  "hasOPFS (fst (deleteFromOPFS w n)) = hasOPFS w"
  "getDirectory (fst (deleteFromOPFS w n)) = getDirectory w"
  "ls_meta (fst (deleteFromOPFS w n)) = ls_meta w"
  "videos (fst (deleteFromOPFS w n)) = videos w"
  "toasts (fst (deleteFromOPFS w n)) = toasts w"
  by (simp_all add: deleteFromOPFS_cases dir_set_def split: option.splits)

lemma delete_dir:
  "getDirectory w = None \<Longrightarrow> videos_dir (fst (deleteFromOPFS w n)) n = None"
  by (simp add: deleteFromOPFS_cases dir_set_def split: option.splits)






text \<open>
  Claim C2, as amended. \<open>deleteFromOPFS\<close> has no guard of its own: for a name with no entry
  it leaves the store as it is and ends as the platform's \<open>removeEntry\<close> does for a missing
  entry (after \<open>getVideosDir\<close>). When that is a rejection, \<open>handleRemove\<close> reports
  \<open>Could not remove\<close> and changes neither the stored index nor the list on display. Whenever
  the delete resolves, in particular whenever the entry is present and the directory can be
  opened, \<open>handleRemove\<close> reports \<open>Removed\<close>, and the name is gone from the store, from the
  stored index and from the list.
\<close>

theorem delete_of_missing_entry:
  "(videos_dir w n = None \<longrightarrow>
      deleteFromOPFS w n =
        (w, case getDirectory w of
              Some e \<Rightarrow> Inl e
            | None \<Rightarrow> (case removeEntry_missing w of None \<Rightarrow> Inr () | Some e \<Rightarrow> Inl e))) \<and>
   (hasOPFS w \<and> getDirectory w = None \<and> videos_dir w n = None \<and>
    removeEntry_missing w = Some e \<longrightarrow>
      handleRemove w n = showToast w ''Could not remove'' ''warn'') \<and>
   (hasOPFS w \<and> getDirectory w = None \<and>
    (videos_dir w n \<noteq> None \<or> removeEntry_missing w = None) \<longrightarrow>
      toasts (handleRemove w n) = toasts w @ [(''Removed'', ''info'')] \<and>
      videos_dir (handleRemove w n) n = None \<and>
      ls_get (handleRemove w n) = filter (\<lambda>m. m_name m \<noteq> n) (ls_get w) \<and>
      videos (handleRemove w n) = filter (\<lambda>v. v_name v \<noteq> n) (videos w))"
proof -
  have a: "videos_dir w n = None \<Longrightarrow>
      deleteFromOPFS w n =
        (w, case getDirectory w of
              Some e \<Rightarrow> Inl e
            | None \<Rightarrow> (case removeEntry_missing w of None \<Rightarrow> Inr () | Some e \<Rightarrow> Inl e))"
    by (simp add: deleteFromOPFS_cases split: option.splits)
  have b: "handleRemove w n = showToast w ''Could not remove'' ''warn''"
    if "hasOPFS w" "getDirectory w = None" "videos_dir w n = None" "removeEntry_missing w = Some e"
    using that by (simp add: remove_rejected [where e = e] a)
  have c: "toasts (handleRemove w n) = toasts w @ [(''Removed'', ''info'')] \<and>
      videos_dir (handleRemove w n) n = None \<and>
      ls_get (handleRemove w n) = filter (\<lambda>m. m_name m \<noteq> n) (ls_get w) \<and>
      videos (handleRemove w n) = filter (\<lambda>v. v_name v \<noteq> n) (videos w)"
    if h: "hasOPFS w" "getDirectory w = None"
      "videos_dir w n \<noteq> None \<or> removeEntry_missing w = None"
  proof -
    from h have "snd (deleteFromOPFS w n) = Inr ()"
      by (auto simp: deleteFromOPFS_cases split: option.splits)
    with h(1) have "handleRemove w n =
        (let w1 = fst (deleteFromOPFS w n);
             w2 = ls_set w1 (filter (\<lambda>m. m_name m \<noteq> n) (ls_get w1))
         in showToast (setVideos w2 (filter (\<lambda>v. v_name v \<noteq> n) (videos w2))) ''Removed'' ''info'')"
      by (rule remove_resolved)
    moreover have "ls_get (fst (deleteFromOPFS w n)) = ls_get w"
      by (simp add: ls_get_def delete_fields)
    ultimately show ?thesis
      using h(2) by (simp add: Let_def showToast_def setVideos_def ls_set_def ls_get_def
          delete_fields delete_dir)
  qed
  from a b c show ?thesis by blast
qed

theorem delete_of_missing_entry_witness:
  "hasOPFS example_world \<and> getDirectory example_world = None \<and>
   videos_dir example_world ''c.mp4'' \<noteq> None \<and>
   toasts (handleRemove example_world ''c.mp4'') = [(''Removed'', ''info'')] \<and>
   videos_dir (handleRemove example_world ''c.mp4'') ''c.mp4'' = None \<and>
   ls_get (handleRemove example_world ''c.mp4'') = [Meta ''a.mp4'' 3, Meta ''b.mp4'' 5] \<and>
   videos_dir example_world ''b.mp4'' = None \<and>
   removeEntry_missing example_world = Some (Exn ''NotFoundError'') \<and>
   deleteFromOPFS example_world ''b.mp4'' = (example_world, Inl (Exn ''NotFoundError'')) \<and>
   handleRemove example_world ''b.mp4'' = showToast example_world ''Could not remove'' ''warn''"
proof -
  have h: "hasOPFS example_world" "getDirectory example_world = None"
      "videos_dir example_world ''c.mp4'' \<noteq> None"
      "videos_dir example_world ''b.mp4'' = None"
      "removeEntry_missing example_world = Some (Exn ''NotFoundError'')"
    by (simp_all add: example_world_def)
  have v: "toasts example_world = []"
      "ls_get example_world = [Meta ''a.mp4'' 3, Meta ''b.mp4'' 5, Meta ''c.mp4'' 1]"
    by (simp_all add: example_world_def ls_get_def)
  from delete_of_missing_entry [of example_world "''c.mp4''" undefined] h v
  have present: "toasts (handleRemove example_world ''c.mp4'') = [(''Removed'', ''info'')] \<and>
      videos_dir (handleRemove example_world ''c.mp4'') ''c.mp4'' = None \<and>
      ls_get (handleRemove example_world ''c.mp4'') = [Meta ''a.mp4'' 3, Meta ''b.mp4'' 5]"
    by simp
  from delete_of_missing_entry [of example_world "''b.mp4''" "Exn ''NotFoundError''"] h
  have absent: "deleteFromOPFS example_world ''b.mp4'' = (example_world, Inl (Exn ''NotFoundError'')) \<and>
      handleRemove example_world ''b.mp4'' = showToast example_world ''Could not remove'' ''warn''"
    by simp
  from h present absent show ?thesis by blast
qed

text \<open>
  The claim as stated fails in a browser whose \<open>removeEntry\<close> rejects for a missing entry:
  the second of two deletes in a row rejects with \<open>NotFoundError\<close>, and removing a listed
  name whose file is already gone reports \<open>Could not remove\<close> and leaves the record in the
  stored index.
\<close>

theorem delete_twice_counterexample:
  "removeEntry_missing example_world = Some (Exn ''NotFoundError'') \<and>
   snd (deleteFromOPFS example_world ''a.mp4'') = Inr () \<and>
   snd (deleteFromOPFS (fst (deleteFromOPFS example_world ''a.mp4'')) ''a.mp4'')
     = Inl (Exn ''NotFoundError'') \<and>
   videos_dir example_world ''b.mp4'' = None \<and>
   toasts (handleRemove example_world ''b.mp4'') = [(''Could not remove'', ''warn'')] \<and>
   ls_meta (handleRemove example_world ''b.mp4'') = ls_meta example_world \<and>
   ''b.mp4'' \<in> listed (ls_meta (handleRemove example_world ''b.mp4''))"
  by (simp add: example_world_def deleteFromOPFS_cases dir_set_def handleRemove_def
      handleRemove_try_def showToast_def listed_def Let_def)

subsection \<open>Import: the writes\<close>

lemma create_fields:
  "hasOPFS (getFileHandle_create w n) = hasOPFS w"
  "getDirectory (getFileHandle_create w n) = getDirectory w"
  "ls_meta (getFileHandle_create w n) = ls_meta w"
  "videos (getFileHandle_create w n) = videos w"
  "toasts (getFileHandle_create w n) = toasts w"
  "next_url (getFileHandle_create w n) = next_url w"
  by (simp_all add: getFileHandle_create_def dir_set_def split: option.splits)

lemma create_dir:
  "videos_dir (getFileHandle_create w n) =
     (if videos_dir w n = None then (videos_dir w)(n \<mapsto> []) else videos_dir w)"
  by (auto simp: getFileHandle_create_def dir_set_def split: option.splits)

lemma create_history:
  "\<exists>hs. history (getFileHandle_create w n) = history w @ hs \<and> index_is (ls_meta w) hs"
  by (simp add: getFileHandle_create_def dir_set_def index_is_def split: option.splits)

lemma write_fields:
  "hasOPFS (fst (writeFileToOPFS w f out)) = hasOPFS w"
  "getDirectory (fst (writeFileToOPFS w f out)) = getDirectory w"
  "ls_meta (fst (writeFileToOPFS w f out)) = ls_meta w"
  "videos (fst (writeFileToOPFS w f out)) = videos w"
  "toasts (fst (writeFileToOPFS w f out)) = toasts w"
  "next_url (fst (writeFileToOPFS w f out)) = next_url w"
  by (simp_all add: writeFileToOPFS_def getVideosDir_def create_fields dir_set_def Let_def
      split: option.splits write_outcome.splits)

lemma write_history:
  "\<exists>hs. history (fst (writeFileToOPFS w f out)) = history w @ hs \<and> index_is (ls_meta w) hs"
proof (cases "getDirectory w")
  case (Some e)
  then show ?thesis by (simp add: writeFileToOPFS_def getVideosDir_def index_is_def)
next
  case None
  obtain hs where hs: "history (getFileHandle_create w (fname f)) = history w @ hs"
      "index_is (ls_meta w) hs"
    using create_history by blast
  show ?thesis
  proof (cases out)
    case Flushed
    with None hs show ?thesis
      by (simp add: writeFileToOPFS_def getVideosDir_def Let_def dir_set_def create_fields
          index_is_def)
  next
    case (GetFileHandleRejects e)
    with None show ?thesis by (simp add: writeFileToOPFS_def getVideosDir_def index_is_def)
  next
    case (StreamRejects e)
    with None hs show ?thesis by (simp add: writeFileToOPFS_def getVideosDir_def)
  qed
qed

lemma write_resolves:
  "snd (writeFileToOPFS w f out) = Inr x \<longleftrightarrow>
     getDirectory w = None \<and> out = Flushed \<and> x = meta_of f"
  by (auto simp: writeFileToOPFS_def getVideosDir_def Let_def meta_of_def
      split: option.splits write_outcome.splits)

lemma write_ok_dir:
  "getDirectory w = None \<Longrightarrow> videos_dir (write_ok w f) = dir_write (videos_dir w) f"
  by (simp add: write_ok_def writeFileToOPFS_def getVideosDir_def Let_def dir_set_def
      create_dir dir_write_def)

lemma write_rejects:
  "getDirectory w = None \<Longrightarrow>
   writeFileToOPFS w f (GetFileHandleRejects e) = (w, Inl e) \<and>
   writeFileToOPFS w f (StreamRejects e) = (getFileHandle_create w (fname f), Inl e)"
  by (simp add: writeFileToOPFS_def getVideosDir_def)

lemma index_is_append: "index_is m (hs @ hs') \<longleftrightarrow> index_is m hs \<and> index_is m hs'"
  by (simp add: index_is_def)


lemma written_Cons: "written d (f # fs) = written (dir_write d f) fs"
  by (simp add: written_def)


subsection \<open>Import: the loop over the picks\<close>

lemma add_loop_Cons_OPFS:
  "hasOPFS w \<Longrightarrow> getFile p = Inr f \<Longrightarrow>
   add_loop w (p # ps) acc =
     (case snd (writeFileToOPFS w f (stream p)) of
        Inl e \<Rightarrow> (fst (writeFileToOPFS w f (stream p)), Inl e)
      | Inr x \<Rightarrow> add_loop (fst (writeFileToOPFS w f (stream p))) ps (acc @ [meta_of f]))"
  by (cases "writeFileToOPFS w f (stream p)") (simp add: meta_of_def split: sum.splits)

lemma add_loop_inv:
  "ls_meta (fst (add_loop w ps acc)) = ls_meta w \<and>
   hasOPFS (fst (add_loop w ps acc)) = hasOPFS w \<and>
   toasts (fst (add_loop w ps acc)) = toasts w \<and>
   (hasOPFS w \<longrightarrow> videos (fst (add_loop w ps acc)) = videos w) \<and>
   (\<exists>hs. history (fst (add_loop w ps acc)) = history w @ hs \<and> index_is (ls_meta w) hs) \<and>
   (hasOPFS w \<longrightarrow> (\<forall>added. snd (add_loop w ps acc) = Inr added \<longrightarrow>
      (\<exists>fs. ps = map flushed_pick fs \<and> added = acc @ map meta_of fs \<and>
            videos_dir (fst (add_loop w ps acc)) = written (videos_dir w) fs)))"
proof (induction ps arbitrary: w acc)
  case Nil
  show ?case by (simp add: index_is_def written_def)
next
  case (Cons p ps)
  show ?case
  proof (cases "getFile p")
    case (Inl e)
    then show ?thesis by (simp add: index_is_def)
  next
    case (Inr f)
    show ?thesis
    proof (cases "hasOPFS w")
      case False
      let ?w' = "setVideos (fst (createObjectURL w))
                   (videos (fst (createObjectURL w)) @ [Video (fname f) (fsize f) (next_url w)])"
      have step: "add_loop w (p # ps) acc = add_loop ?w' ps acc"
        using Inr False by (simp add: createObjectURL_def)
      have f: "ls_meta ?w' = ls_meta w" "hasOPFS ?w' = hasOPFS w" "toasts ?w' = toasts w"
          "history ?w' = history w"
        by (simp_all add: setVideos_def createObjectURL_def)
      show ?thesis
        using Cons.IH [of ?w' acc] False by (simp only: step f) simp
    next
      case True
      let ?r = "writeFileToOPFS w f (stream p)"
      obtain hs where hs: "history (fst ?r) = history w @ hs" "index_is (ls_meta w) hs"
        using write_history by blast
      show ?thesis
      proof (cases "snd ?r")
        case (Inl e)
        then have "add_loop w (p # ps) acc = (fst ?r, Inl e)"
          using True \<open>getFile p = Inr f\<close> by (simp add: add_loop_Cons_OPFS del: add_loop.simps)
        then show ?thesis using hs by (simp add: write_fields del: add_loop.simps)
      next
        case (Inr x)
        then have ok: "getDirectory w = None" "stream p = Flushed"
          by (simp_all add: write_resolves)
        have step: "add_loop w (p # ps) acc = add_loop (fst ?r) ps (acc @ [meta_of f])"
          using True \<open>getFile p = Inr f\<close> Inr
          by (simp add: add_loop_Cons_OPFS del: add_loop.simps)
        have p: "p = flushed_pick f"
          using \<open>getFile p = Inr f\<close> ok(2) by (cases p) (simp add: flushed_pick_def)
        have dir: "videos_dir (fst ?r) = dir_write (videos_dir w) f"
          using write_ok_dir [OF ok(1), of f] ok(2) by (simp add: write_ok_def)
        note IH = Cons.IH [of "fst ?r" "acc @ [meta_of f]"]
        have a: "ls_meta (fst (add_loop w (p # ps) acc)) = ls_meta w"
            "hasOPFS (fst (add_loop w (p # ps) acc)) = hasOPFS w"
            "toasts (fst (add_loop w (p # ps) acc)) = toasts w"
            "videos (fst (add_loop w (p # ps) acc)) = videos w"
          using IH True unfolding step by (simp_all add: write_fields)
        have b: "\<exists>hs'. history (fst (add_loop w (p # ps) acc)) = history w @ hs' \<and>
            index_is (ls_meta w) hs'"
        proof -
          from IH obtain hs2 where "history (fst (add_loop (fst ?r) ps (acc @ [meta_of f]))) =
              history (fst ?r) @ hs2" "index_is (ls_meta (fst ?r)) hs2"
            by blast
          then have "history (fst (add_loop w (p # ps) acc)) = history w @ (hs @ hs2)"
              "index_is (ls_meta w) (hs @ hs2)"
            using hs unfolding step by (simp_all add: write_fields index_is_append)
          then show ?thesis by blast
        qed
        have c: "\<exists>fs. p # ps = map flushed_pick fs \<and> added = acc @ map meta_of fs \<and>
            videos_dir (fst (add_loop w (p # ps) acc)) = written (videos_dir w) fs"
          if "snd (add_loop w (p # ps) acc) = Inr added" for added
        proof -
          from that have "snd (add_loop (fst ?r) ps (acc @ [meta_of f])) = Inr added"
            unfolding step .
          with IH True obtain fs where fs: "ps = map flushed_pick fs"
              "added = (acc @ [meta_of f]) @ map meta_of fs"
              "videos_dir (fst (add_loop (fst ?r) ps (acc @ [meta_of f]))) =
                 written (videos_dir (fst ?r)) fs"
            by (auto simp: write_fields)
          have "p # ps = map flushed_pick (f # fs)"
            using p fs(1) by simp
          moreover have "added = acc @ map meta_of (f # fs)"
            using fs(2) by simp
          moreover have "videos_dir (fst (add_loop w (p # ps) acc)) =
              written (videos_dir w) (f # fs)"
            unfolding step using fs(3) by (simp add: dir written_Cons)
          ultimately show ?thesis by (intro exI [where x = "f # fs"] conjI)
        qed
        from a b c show ?thesis by blast
      qed
    qed
  qed
qed

subsection \<open>Import: \<open>handleAdd\<close>\<close>

lemma handleAdd_Picks:
  "handleAdd w (Picks ps) =
     (case snd (add_loop w ps []) of
        Inl e \<Rightarrow>
          (if ename e \<noteq> ''AbortError''
           then showToast (fst (add_loop w ps [])) ''Failed to add video'' ''warn''
           else fst (add_loop w ps []))
      | Inr added \<Rightarrow>
          (if hasOPFS w \<and> added \<noteq> [] then
             (let merged = upsertAll (ls_get w) added;
                  w2 = ls_set (fst (add_loop w ps [])) merged
              in showToast
                   (setVideos (fst (rebuild_loop w2 merged [])) (snd (rebuild_loop w2 merged [])))
                   ''Video(s) saved for offline use'' ''success'')
           else showToast (fst (add_loop w ps [])) ''Video(s) added (session-only)'' ''warn''))"
proof -
  have "ls_get (fst (add_loop w ps [])) = ls_get w" "hasOPFS (fst (add_loop w ps [])) = hasOPFS w"
    using add_loop_inv [of w ps "[]"] by (simp_all add: ls_get_def)
  then show ?thesis
    by (cases "add_loop w ps []")
       (simp add: handleAdd_def handleAdd_try_def Let_def split: prod.splits sum.splits)
qed








subsection \<open>Import: a write that fails\<close>

lemma persist_fields:
  "hasOPFS (foldl write_ok w fs) = hasOPFS w"
  "getDirectory (foldl write_ok w fs) = getDirectory w"
  "ls_meta (foldl write_ok w fs) = ls_meta w"
  "videos (foldl write_ok w fs) = videos w"
  "toasts (foldl write_ok w fs) = toasts w"
  by (induction fs arbitrary: w) (simp_all add: write_ok_def write_fields)

lemma persist_dir:
  "getDirectory w = None \<Longrightarrow> videos_dir (foldl write_ok w fs) = written (videos_dir w) fs"
proof (induction fs arbitrary: w)
  case Nil
  show ?case by (simp add: written_def)
next
  case (Cons f fs)
  have "getDirectory (write_ok w f) = None"
    using Cons.prems by (simp add: write_ok_def write_fields)
  then have "videos_dir (foldl write_ok (write_ok w f) fs) = written (videos_dir (write_ok w f)) fs"
    by (rule Cons.IH)
  then show ?case
    using Cons.prems by (simp add: write_ok_dir written_Cons)
qed

lemma add_loop_prefix:
  "hasOPFS w \<Longrightarrow> getDirectory w = None \<Longrightarrow>
   add_loop w (map flushed_pick fs @ ps) acc =
     add_loop (foldl write_ok w fs) ps (acc @ map meta_of fs)"
proof (induction fs arbitrary: w acc)
  case Nil
  show ?case by simp
next
  case (Cons f fs)
  have r: "snd (writeFileToOPFS w f Flushed) = Inr (meta_of f)"
    using Cons.prems(2) by (simp add: write_resolves)
  have "add_loop w (flushed_pick f # (map flushed_pick fs @ ps)) acc =
      add_loop (write_ok w f) (map flushed_pick fs @ ps) (acc @ [meta_of f])"
    using Cons.prems(1) r
    by (simp add: add_loop_Cons_OPFS [where f = f] flushed_pick_def write_ok_def
        del: add_loop.simps)
  moreover have "hasOPFS (write_ok w f)" "getDirectory (write_ok w f) = None"
    using Cons.prems by (simp_all add: write_ok_def write_fields)
  ultimately show ?case
    using Cons.IH [of "write_ok w f" "acc @ [meta_of f]"] by simp
qed

text \<open>
  Claim C8, as amended. In a multi-file import with the Blob Store available, when the write
  of one file fails after the files before it were written in full: those earlier files are
  in the Blob Store, the failing file leaves at most an empty entry, no later file is written,
  the Metadata Index and the list on display are left as they were, and the caller gets the
  one message \<open>Failed to add video\<close> (none when the failure is an \<open>AbortError\<close>), without
  any count.
\<close>

theorem failed_write_aborts_import:
  assumes "hasOPFS w" and "getDirectory w = None"
    and "out = GetFileHandleRejects e \<or> out = StreamRejects e"
  shows "ls_meta (handleAdd w (Picks (map flushed_pick before @ Pick (Inr f) out # after)))
           = ls_meta w \<and>
         videos (handleAdd w (Picks (map flushed_pick before @ Pick (Inr f) out # after)))
           = videos w \<and>
         toasts (handleAdd w (Picks (map flushed_pick before @ Pick (Inr f) out # after)))
           = toasts w @
             (if ename e \<noteq> ''AbortError'' then [(''Failed to add video'', ''warn'')] else []) \<and>
         videos_dir (handleAdd w (Picks (map flushed_pick before @ Pick (Inr f) out # after)))
           = (if out = StreamRejects e \<and> written (videos_dir w) before (fname f) = None
              then (written (videos_dir w) before)(fname f \<mapsto> [])
              else written (videos_dir w) before)"
proof -
  let ?W = "foldl write_ok w before"
  let ?ps = "map flushed_pick before @ Pick (Inr f) out # after"
  have W: "hasOPFS ?W" "getDirectory ?W = None"
    using assms(1,2) by (simp_all add: persist_fields)
  have dir: "videos_dir ?W = written (videos_dir w) before"
    using assms(2) by (rule persist_dir)
  have r: "writeFileToOPFS ?W f out =
      (if out = StreamRejects e then getFileHandle_create ?W (fname f) else ?W, Inl e)"
    using assms(3) write_rejects [OF W(2), of f e] by auto
  have "add_loop w ?ps [] = add_loop ?W (Pick (Inr f) out # after) (map meta_of before)"
    using add_loop_prefix [OF assms(1,2), of before "Pick (Inr f) out # after" "[]"] by simp
  also have "\<dots> = (if out = StreamRejects e then getFileHandle_create ?W (fname f) else ?W, Inl e)"
    using W(1) r by (simp add: add_loop_Cons_OPFS [where f = f] del: add_loop.simps)
  finally have loop: "add_loop w ?ps [] =
      (if out = StreamRejects e then getFileHandle_create ?W (fname f) else ?W, Inl e)" .
  show ?thesis
    by (simp add: handleAdd_Picks loop showToast_def create_fields create_dir persist_fields dir)
qed

theorem failed_write_aborts_import_witness:
  "hasOPFS example_world \<and> getDirectory example_world = None \<and>
   example_import =
     Picks (map flushed_pick [File ''d.mp4'' [1, 2]] @
            Pick (Inr (File ''e.mp4'' [3])) (StreamRejects (Exn ''QuotaExceededError'')) #
            [flushed_pick (File ''f.mp4'' [4])]) \<and>
   ls_meta (handleAdd example_world example_import) = ls_meta example_world \<and>
   toasts (handleAdd example_world example_import) = [(''Failed to add video'', ''warn'')]"
proof -
  have h: "hasOPFS example_world" "getDirectory example_world = None"
    by (simp_all add: example_world_def)
  have i: "example_import =
     Picks (map flushed_pick [File ''d.mp4'' [1, 2]] @
            Pick (Inr (File ''e.mp4'' [3])) (StreamRejects (Exn ''QuotaExceededError'')) #
            [flushed_pick (File ''f.mp4'' [4])])"
    by (simp add: example_import_def)
  have t: "toasts example_world = []"
    by (simp add: example_world_def)
  from failed_write_aborts_import [OF h, where out = "StreamRejects (Exn ''QuotaExceededError'')"
      and e = "Exn ''QuotaExceededError''" and before = "[File ''d.mp4'' [1, 2]]"
      and f = "File ''e.mp4'' [3]" and after = "[flushed_pick (File ''f.mp4'' [4])]"]
  show ?thesis
    using h t by (simp only: i [symmetric]) simp
qed

text \<open>
  The claim as stated fails on an import of three files whose second write is rejected: the
  third file is never written, the first is in the Blob Store but not in the stored index,
  and the only message is \<open>Failed to add video\<close>.
\<close>

theorem failed_write_counterexample:
  "toasts (handleAdd example_world example_import) = [(''Failed to add video'', ''warn'')] \<and>
   videos_dir (handleAdd example_world example_import) ''d.mp4'' = Some [1, 2] \<and>
   videos_dir (handleAdd example_world example_import) ''f.mp4'' = None \<and>
   ''d.mp4'' \<notin> listed (ls_meta (handleAdd example_world example_import)) \<and>
   videos (handleAdd example_world example_import) = []"
  by (simp add: handleAdd_def handleAdd_try_def example_import_def example_world_def
      flushed_pick_def writeFileToOPFS_def getVideosDir_def getFileHandle_create_def dir_set_def
      Let_def showToast_def listed_def)

end
